theory Spec2Isabelle
  imports Complex_Main
begin

section \<open>Data model\<close>

text \<open>
  A shallow embedding of the charging tracker of \<^verbatim>\<open>src/App.tsx\<close> and of the insight
  service that follows the type declarations in \<^verbatim>\<open>src/types.ts\<close>.

  Numbers: a JavaScript \<^verbatim>\<open>number\<close> that holds a battery level, a wattage, a voltage
  or an amperage is a \<^typ>\<open>real\<close>. The tracker is modelled with exact arithmetic: what
  is proved of it (sessions, histories, guards, bounds, recurrences) does not depend on
  the rounding of IEEE-754 doubles. The rate estimator is modelled a second time with
  every operation rounded to a double (section ``Double-precision arithmetic''), and
  the statements about the values it returns are proved of that model. A reading of
  \<^verbatim>\<open>Date.now()\<close> is an \<^typ>\<open>int\<close> (milliseconds). \<^verbatim>\<open>null\<close> is \<^const>\<open>None\<close>.
\<close>

datatype Status = Charging | Discharging

record ChargingLog =
  timestamp :: int
  level :: real
  wattage :: real
  voltage :: real
  amperage :: real
  status :: Status

record SessionStats =
  startTime :: int
  endTime :: "int option"
  startLevel :: real
  endLevel :: "real option"
  avgWattage :: real
  maxWattage :: real
  avgVoltage :: real
  maxAmperage :: real
  totalEnergyWh :: real

text \<open>The \<^verbatim>\<open>metrics\<close> state \<^verbatim>\<open>{ watts, volts, amps }\<close>.\<close>

record Metrics =
  watts :: real
  volts :: real
  amps :: real

text \<open>The object held by \<^verbatim>\<open>lastUpdateRef\<close>: \<^verbatim>\<open>{ time, level }\<close>.\<close>

record SamplePoint =
  lastTime :: int
  lastLevel :: real

text \<open>
  What one run of the tracking effect reads from outside the tracker: the
  \<^verbatim>\<open>isCharging\<close> and \<^verbatim>\<open>level\<close> values of the render it belongs to, the clock
  (\<^verbatim>\<open>Date.now()\<close>; the reads of one run are taken to return the same value) and the
  number that \<^verbatim>\<open>Math.random()\<close> returns when the run draws one.
\<close>

record BatteryEvent =
  isCharging :: bool
  batteryLevel :: real
  now :: int
  mathRandom :: real

text \<open>The component state the effect and the insight callback read and write.\<close>

record AppState =
  metrics :: Metrics
  history :: "ChargingLog list"
  session :: "SessionStats option"
  pastSessions :: "SessionStats list"
  lastUpdateRef :: "SamplePoint option"
  aiInsight :: string
  isLoadingInsight :: bool

definition BATTERY_CAPACITY_WH :: real where
  "BATTERY_CAPACITY_WH = 19.25"

definition MAX_STORED_SESSIONS :: nat where
  "MAX_STORED_SESSIONS = 5"

section \<open>Rate estimation\<close>

text \<open>
  \<^verbatim>\<open>estimateElectricalProperties\<close> (App.tsx, lines 99-108). The first argument is
  the value of \<^verbatim>\<open>Math.random()\<close>; the result is the pair \<^verbatim>\<open>(volts, amps)\<close>.
\<close>

definition estimateElectricalProperties :: "real \<Rightarrow> real \<Rightarrow> real \<times> real" where
  "estimateElectricalProperties rnd w =
     (let v = (if w > 25 then 12.0 else if w > 12 then 9.0 else if w > 0 then 5.0 else 5.0);
          jitter = (rnd - 0.5) * 0.1;
          stableVolts = v + (if w > 0 then jitter else 0);
          a = (if w > 0 then w / stableVolts else 0)
      in (stableVolts, a))"

text \<open>
  The local constants of the sampling branch (App.tsx, lines 128-133), as functions of
  the stored sample point and the current event.
\<close>

definition deltaLevel :: "SamplePoint \<Rightarrow> BatteryEvent \<Rightarrow> real" where
  "deltaLevel p e = batteryLevel e - lastLevel p"

definition deltaTimeHours :: "SamplePoint \<Rightarrow> BatteryEvent \<Rightarrow> real" where
  "deltaTimeHours p e = real_of_int (now e - lastTime p) / (1000 * 60 * 60)"

definition rawWattage :: "SamplePoint \<Rightarrow> BatteryEvent \<Rightarrow> real" where
  "rawWattage p e = (deltaLevel p e * BATTERY_CAPACITY_WH) / deltaTimeHours p e"

definition cleanWattage :: "SamplePoint \<Rightarrow> BatteryEvent \<Rightarrow> real" where
  "cleanWattage p e = min (max (rawWattage p e) 0) 120"

text \<open>The entry that \<^verbatim>\<open>setHistory\<close> appends (lines 138-143).\<close>

definition logEntry :: "SamplePoint \<Rightarrow> BatteryEvent \<Rightarrow> ChargingLog" where
  "logEntry p e =
     (case estimateElectricalProperties (mathRandom e) (cleanWattage p e) of
        (v, a) \<Rightarrow>
          \<lparr> timestamp = now e, level = batteryLevel e * 100, wattage = cleanWattage p e,
            voltage = v, amperage = a, status = Charging \<rparr>)"

section \<open>Session tracking\<close>

text \<open>The session object created when charging starts (lines 113-123).\<close>

definition newSession :: "BatteryEvent \<Rightarrow> SessionStats" where
  "newSession e =
     \<lparr> startTime = now e, endTime = None, startLevel = batteryLevel e, endLevel = None,
       avgWattage = 0, maxWattage = 0, avgVoltage = 0, maxAmperage = 0, totalEnergyWh = 0 \<rparr>"

text \<open>
  The updater passed to \<^verbatim>\<open>setSession\<close> for an accepted sample (lines 146-159), with
  the sample's clean wattage, volts and amps.
\<close>

definition foldSample :: "real \<Rightarrow> real \<Rightarrow> real \<Rightarrow> SessionStats option \<Rightarrow> SessionStats option" where
  "foldSample w v a prev =
     (case prev of
        None \<Rightarrow> None
      | Some pr \<Rightarrow>
          (let newMaxW = max (maxWattage pr) w;
               newMaxA = max (maxAmperage pr) a;
               newAvgW = (if avgWattage pr = 0 then w else (avgWattage pr + w) / 2);
               newAvgV = (if avgVoltage pr = 0 then v else (avgVoltage pr + v) / 2)
           in Some (pr\<lparr> maxWattage := newMaxW, avgWattage := newAvgW,
                         avgVoltage := newAvgV, maxAmperage := newMaxA \<rparr>)))"

text \<open>Lines 112-124: open a session unless one is open.\<close>

definition openSession :: "BatteryEvent \<Rightarrow> AppState \<Rightarrow> AppState" where
  "openSession e s =
     (case session s of
        None \<Rightarrow> s\<lparr> session := Some (newSession e) \<rparr>
      | Some cur \<Rightarrow>
          (if endTime cur \<noteq> None then s\<lparr> session := Some (newSession e) \<rparr> else s))"

text \<open>\<^verbatim>\<open>xs.slice(-n)\<close> for a positive \<^verbatim>\<open>n\<close>: the last \<^verbatim>\<open>n\<close> elements, all of them when there are fewer.\<close>

definition sliceLast :: "nat \<Rightarrow> 'a list \<Rightarrow> 'a list" where
  "sliceLast n xs = drop (length xs - n) xs"

text \<open>
  Lines 127-161: with a stored sample point of another level and a positive elapsed
  time, set the live metrics, append to the history (\<^verbatim>\<open>prev.slice(-49)\<close> keeps the
  last 49 entries) and fold the sample into the session.
\<close>

definition recordSample :: "SamplePoint option \<Rightarrow> BatteryEvent \<Rightarrow> AppState \<Rightarrow> AppState" where
  "recordSample ref e s =
     (case ref of
        None \<Rightarrow> s
      | Some p \<Rightarrow>
          (if lastLevel p \<noteq> batteryLevel e then
             (if deltaTimeHours p e > 0 then
                (case estimateElectricalProperties (mathRandom e) (cleanWattage p e) of
                   (v, a) \<Rightarrow>
                     s\<lparr> metrics := \<lparr> watts = cleanWattage p e, volts = v, amps = a \<rparr>,
                        history := sliceLast 49 (history s) @ [logEntry p e],
                        session := foldSample (cleanWattage p e) v a (session s) \<rparr>)
              else s)
           else s))"

text \<open>Lines 162-164: move the sample point when there is none or the level changed.\<close>

definition moveSamplePoint :: "BatteryEvent \<Rightarrow> SamplePoint option \<Rightarrow> SamplePoint option" where
  "moveSamplePoint e ref =
     (case ref of
        None \<Rightarrow> Some \<lparr> lastTime = now e, lastLevel = batteryLevel e \<rparr>
      | Some p \<Rightarrow>
          (if lastLevel p \<noteq> batteryLevel e
           then Some \<lparr> lastTime = now e, lastLevel = batteryLevel e \<rparr>
           else Some p))"

text \<open>
  Lines 166-171: close the open session. \<^verbatim>\<open>triggerAiAnalysis\<close> is called last; what it
  does before its \<^verbatim>\<open>await\<close> is to set the loading flag (line 178).
\<close>

definition closeSession :: "BatteryEvent \<Rightarrow> AppState \<Rightarrow> AppState" where
  "closeSession e s =
     (case session s of
        None \<Rightarrow> s
      | Some cur \<Rightarrow>
          (if endTime cur = None then
             (let finalSession = cur\<lparr> endTime := Some (now e), endLevel := Some (batteryLevel e) \<rparr>
              in s\<lparr> session := Some finalSession,
                    pastSessions := take MAX_STORED_SESSIONS (finalSession # pastSessions s),
                    isLoadingInsight := True \<rparr>)
           else s))"

text \<open>
  The effect on \<^verbatim>\<open>[isCharging, level]\<close> (lines 110-175): one run, from the state of
  the render it belongs to, to the state after its queued updates are applied in order.
\<close>

definition batteryEffect :: "AppState \<Rightarrow> BatteryEvent \<Rightarrow> AppState" where
  "batteryEffect s e =
     (if isCharging e then
        (recordSample (lastUpdateRef s) e (openSession e s))
          \<lparr> lastUpdateRef := moveSamplePoint e (lastUpdateRef s) \<rparr>
      else
        (closeSession e s)
          \<lparr> metrics := \<lparr> watts = 0, volts = 0, amps = 0 \<rparr>, lastUpdateRef := None \<rparr>)"

text \<open>
  The state of the first render (lines 32-43): \<^verbatim>\<open>saved\<close> is the list that the
  initialiser of \<^verbatim>\<open>pastSessions\<close> reads from local storage (empty when there is none).
\<close>

definition initialState :: "SessionStats list \<Rightarrow> AppState" where
  "initialState saved =
     \<lparr> metrics = \<lparr> watts = 0, volts = 0, amps = 0 \<rparr>, history = [], session = None,
       pastSessions = saved, lastUpdateRef = None, aiInsight = [], isLoadingInsight = False \<rparr>"

text \<open>The runs of the effect for a sequence of events, oldest first.\<close>

fun run :: "AppState \<Rightarrow> BatteryEvent list \<Rightarrow> AppState" where
  "run s [] = s"
| "run s (e # es) = run (batteryEffect s e) es"

section \<open>Insight service\<close>

text \<open>
  \<^verbatim>\<open>getChargingInsights\<close> (the service module that follows the declarations of
  types.ts). The whole body is one \<^verbatim>\<open>try\<close> block around the awaited call of the text
  generator, so the only input that matters is how that block ends: \<open>Inl err\<close> when the
  call rejects or anything else in the block throws, \<open>Inr text\<close> when it returns a
  response, \<open>text\<close> being \<^verbatim>\<open>response.text\<close> (\<^const>\<open>None\<close> for \<^verbatim>\<open>undefined\<close>).
  The result is a sum as well, \<open>Inl\<close> standing for a rejected promise.
\<close>

datatype JsError = JsError string

definition getChargingInsights :: "JsError + string option \<Rightarrow> JsError + string option" where
  "getChargingInsights outcome =
     (case outcome of
        Inr text \<Rightarrow> Inr text
      | Inl err \<Rightarrow> Inr (Some ''Unable to generate AI insights at this moment.''))"

text \<open>
  \<^verbatim>\<open>triggerAiAnalysis\<close> after its \<^verbatim>\<open>await\<close> (App.tsx, lines 186-188): the
  continuation runs on the state of a later moment; \<^verbatim>\<open>insight || ''\<close> turns
  \<^verbatim>\<open>undefined\<close> into the empty string. The part before the \<^verbatim>\<open>await\<close> is in
  \<^const>\<open>closeSession\<close>.
\<close>

definition triggerAiAnalysisResume :: "JsError + string option \<Rightarrow> AppState \<Rightarrow> JsError + AppState" where
  "triggerAiAnalysisResume outcome s =
     (case getChargingInsights outcome of
        Inl err \<Rightarrow> Inl err
      | Inr insight \<Rightarrow>
          Inr (s\<lparr> aiInsight := (case insight of None \<Rightarrow> [] | Some txt \<Rightarrow> txt),
                  isLoadingInsight := False \<rparr>))"

section \<open>Double-precision arithmetic\<close>

text \<open>
  The numbers of the program are IEEE-754 doubles, and each arithmetic operation
  returns the exact result rounded to the nearest double, ties to the even significand.
  \<open>toDouble x\<close> is that rounding of a real \<open>x\<close>: doubles of binary exponent \<open>e\<close> are
  the multiples of \<open>2 powi (e - 52)\<close>, and below \<open>2 powi (- 1022)\<close> the spacing stays
  that of the subnormal numbers. Results beyond the largest double (infinities), NaN
  and the sign of zero are outside the model; with levels in \<open>[0, 1]\<close> and clock
  readings a millisecond or more apart the expressions below do not produce them.
\<close>

definition roundEven :: "real \<Rightarrow> int" where
  "roundEven q =
     (let f = \<lfloor>q\<rfloor>
      in if q - of_int f < 1 / 2 then f
         else if 1 / 2 < q - of_int f then f + 1
         else if even f then f else f + 1)"

definition binade :: "real \<Rightarrow> int" where
  "binade x = max \<lfloor>log 2 \<bar>x\<bar>\<rfloor> (- 1022)"

definition ulp :: "real \<Rightarrow> real" where
  "ulp x = 2 powi (binade x - 52)"

definition toDouble :: "real \<Rightarrow> real" where
  "toDouble x = (if x = 0 then 0 else of_int (roundEven (x / ulp x)) * ulp x)"

text \<open>
  The sampling branch of the effect (App.tsx, lines 127-133) with every operation
  rounded: the subtraction of the levels, the subtraction of the clock readings, the
  division by \<^verbatim>\<open>1000 * 60 * 60\<close> (an exact integer), the product with the capacity
  (19.25 is a double) and the quotient. \<^verbatim>\<open>Math.min\<close> and \<^verbatim>\<open>Math.max\<close> do not
  round.
\<close>

definition deltaLevel64 :: "SamplePoint \<Rightarrow> BatteryEvent \<Rightarrow> real" where
  "deltaLevel64 p e = toDouble (batteryLevel e - lastLevel p)"

definition deltaTimeHours64 :: "SamplePoint \<Rightarrow> BatteryEvent \<Rightarrow> real" where
  "deltaTimeHours64 p e =
     toDouble (toDouble (real_of_int (now e - lastTime p)) / (1000 * 60 * 60))"

definition rawWattage64 :: "SamplePoint \<Rightarrow> BatteryEvent \<Rightarrow> real" where
  "rawWattage64 p e =
     toDouble (toDouble (deltaLevel64 p e * BATTERY_CAPACITY_WH) / deltaTimeHours64 p e)"

definition cleanWattage64 :: "SamplePoint \<Rightarrow> BatteryEvent \<Rightarrow> real" where
  "cleanWattage64 p e = min (max (rawWattage64 p e) 0) 120"

text \<open>
  The value bound to \<^verbatim>\<open>cleanWattage\<close>, which lines 136 and 140 put into the live
  metrics and into the history entry, under the guards of lines 111, 127 and 131;
  \<^const>\<open>None\<close> when a guard fails and nothing is emitted.
\<close>

definition emittedWattage64 :: "SamplePoint option \<Rightarrow> BatteryEvent \<Rightarrow> real option" where
  "emittedWattage64 ref e =
     (if isCharging e then
        (case ref of
           None \<Rightarrow> None
         | Some p \<Rightarrow>
             (if lastLevel p \<noteq> batteryLevel e then
                (if deltaTimeHours64 p e > 0 then Some (cleanWattage64 p e) else None)
              else None))
      else None)"


section \<open>Observations on a run\<close>

text \<open>
  The stored sample point against which an event yields a telemetry sample, if it does:
  the tracker is charging, a sample point of another level is stored, and the clock has
  advanced since.
\<close>

definition acceptedFrom :: "AppState \<Rightarrow> BatteryEvent \<Rightarrow> SamplePoint option" where
  "acceptedFrom s e =
     (case lastUpdateRef s of
        None \<Rightarrow> None
      | Some p \<Rightarrow>
          (if isCharging e \<and> lastLevel p \<noteq> batteryLevel e \<and> lastTime p < now e
           then Some p else None))"

text \<open>All samples accepted along a run, in the order of their acceptance.\<close>

fun acceptedSamples :: "AppState \<Rightarrow> BatteryEvent list \<Rightarrow> ChargingLog list" where
  "acceptedSamples s [] = []"
| "acceptedSamples s (e # es) =
     (case acceptedFrom s e of None \<Rightarrow> [] | Some p \<Rightarrow> [logEntry p e])
       @ acceptedSamples (batteryEffect s e) es"

text \<open>The session an event completes, if it does: charging has stopped and a session is open.\<close>

definition completedBy :: "AppState \<Rightarrow> BatteryEvent \<Rightarrow> SessionStats option" where
  "completedBy s e =
     (case session s of
        None \<Rightarrow> None
      | Some cur \<Rightarrow>
          (if \<not> isCharging e \<and> endTime cur = None
           then Some (cur\<lparr> endTime := Some (now e), endLevel := Some (batteryLevel e) \<rparr>)
           else None))"

text \<open>All sessions completed along a run, in the order of their completion.\<close>

fun completedSessions :: "AppState \<Rightarrow> BatteryEvent list \<Rightarrow> SessionStats list" where
  "completedSessions s [] = []"
| "completedSessions s (e # es) =
     (case completedBy s e of None \<Rightarrow> [] | Some fin \<Rightarrow> [fin])
       @ completedSessions (batteryEffect s e) es"

text \<open>The open sessions a state holds, in its session slot or in its session history.\<close>

definition isOpen :: "SessionStats \<Rightarrow> bool" where
  "isOpen x = (endTime x = None)"

definition openSessions :: "AppState \<Rightarrow> SessionStats list" where
  "openSessions s =
     filter isOpen (case session s of None \<Rightarrow> [] | Some cur \<Rightarrow> [cur])
       @ filter isOpen (pastSessions s)"

text \<open>Events for concrete runs: a report while charging, and one while not charging.\<close>

definition plugged :: "real \<Rightarrow> int \<Rightarrow> BatteryEvent" where
  "plugged l t = \<lparr> isCharging = True, batteryLevel = l, now = t, mathRandom = 1 / 2 \<rparr>"

definition unplugged :: "real \<Rightarrow> int \<Rightarrow> BatteryEvent" where
  "unplugged l t = \<lparr> isCharging = False, batteryLevel = l, now = t, mathRandom = 1 / 2 \<rparr>"

text \<open>
  A steady charge: \<open>n\<close> reports, one second and one thousandth of the capacity apart,
  that follow the report of level \<open>k / 1000\<close> at second \<open>k\<close>.
\<close>

fun steadyCharge :: "nat \<Rightarrow> nat \<Rightarrow> BatteryEvent list" where
  "steadyCharge k 0 = []"
| "steadyCharge k (Suc n) =
     plugged (real (Suc k) / 1000) (int (Suc k) * 1000) # steadyCharge (Suc k) n"

text \<open>Seven charging episodes, each of one report while charging and one after it.\<close>

definition sevenSessions :: "BatteryEvent list" where
  "sevenSessions =
     [plugged 0.10 1000, unplugged 0.11 1500, plugged 0.20 2000, unplugged 0.21 2500,
      plugged 0.30 3000, unplugged 0.31 3500, plugged 0.40 4000, unplugged 0.41 4500,
      plugged 0.50 5000, unplugged 0.51 5500, plugged 0.60 6000, unplugged 0.61 6500,
      plugged 0.70 7000, unplugged 0.71 7500]"

lemmas model_defs =
  plugged_def unplugged_def initialState_def batteryEffect_def openSession_def
  recordSample_def moveSamplePoint_def closeSession_def newSession_def foldSample_def
  logEntry_def cleanWattage_def rawWattage_def deltaLevel_def deltaTimeHours_def
  BATTERY_CAPACITY_WH_def MAX_STORED_SESSIONS_def estimateElectricalProperties_def
  sliceLast_def Let_def

section \<open>The effect: one run\<close>

lemma deltaTimeHours_positive: "0 < deltaTimeHours p e \<longleftrightarrow> lastTime p < now e"
  by (simp add: deltaTimeHours_def)

lemma cleanWattage_bounds: "0 \<le> cleanWattage p e \<and> cleanWattage p e \<le> 120"
  by (simp add: cleanWattage_def)

lemma logEntry_fields:
  "timestamp (logEntry p e) = now e"
  "level (logEntry p e) = batteryLevel e * 100"
  "wattage (logEntry p e) = cleanWattage p e"
  "voltage (logEntry p e) = fst (estimateElectricalProperties (mathRandom e) (cleanWattage p e))"
  "amperage (logEntry p e) = snd (estimateElectricalProperties (mathRandom e) (cleanWattage p e))"
  "status (logEntry p e) = Charging"
  by (simp_all add: logEntry_def split: prod.split)

lemma recordSample_accept:
  assumes "lastLevel p \<noteq> batteryLevel e" "lastTime p < now e"
  shows "recordSample (Some p) e s =
     s\<lparr> metrics := \<lparr> watts = cleanWattage p e, volts = voltage (logEntry p e),
                      amps = amperage (logEntry p e) \<rparr>,
        history := sliceLast 49 (history s) @ [logEntry p e],
        session := foldSample (cleanWattage p e) (voltage (logEntry p e))
                     (amperage (logEntry p e)) (session s) \<rparr>"
  using assms
  by (simp add: recordSample_def deltaTimeHours_positive logEntry_fields split: prod.split)

lemma recordSample_skip:
  assumes "ref = None \<or> (\<exists>p. ref = Some p \<and> (lastLevel p = batteryLevel e \<or> now e \<le> lastTime p))"
  shows "recordSample ref e s = s"
  using assms by (auto simp: recordSample_def deltaTimeHours_positive)

lemma openSession_frame:
  "metrics (openSession e s) = metrics s"
  "history (openSession e s) = history s"
  "pastSessions (openSession e s) = pastSessions s"
  "lastUpdateRef (openSession e s) = lastUpdateRef s"
  "aiInsight (openSession e s) = aiInsight s"
  "isLoadingInsight (openSession e s) = isLoadingInsight s"
  by (simp_all add: openSession_def split: option.split)

lemma openSession_open:
  "\<exists>cur. session (openSession e s) = Some cur \<and> endTime cur = None"
  by (auto simp: openSession_def newSession_def split: option.split)

lemma openSession_idle:
  "session s = Some cur \<Longrightarrow> endTime cur = None \<Longrightarrow> openSession e s = s"
  by (simp add: openSession_def)

lemma closeSession_frame:
  "metrics (closeSession e s) = metrics s"
  "history (closeSession e s) = history s"
  "lastUpdateRef (closeSession e s) = lastUpdateRef s"
  "aiInsight (closeSession e s) = aiInsight s"
  by (simp_all add: closeSession_def Let_def split: option.split)

lemma effect_accept:
  assumes "isCharging e" "lastUpdateRef s = Some p" "lastLevel p \<noteq> batteryLevel e"
    "lastTime p < now e"
  shows "metrics (batteryEffect s e) =
           \<lparr> watts = cleanWattage p e, volts = voltage (logEntry p e),
             amps = amperage (logEntry p e) \<rparr>"
    and "history (batteryEffect s e) = sliceLast 49 (history s) @ [logEntry p e]"
    and "session (batteryEffect s e) =
           foldSample (cleanWattage p e) (voltage (logEntry p e)) (amperage (logEntry p e))
             (session (openSession e s))"
    and "pastSessions (batteryEffect s e) = pastSessions s"
    and "lastUpdateRef (batteryEffect s e) =
           Some \<lparr> lastTime = now e, lastLevel = batteryLevel e \<rparr>"
  using assms
  by (simp_all add: batteryEffect_def recordSample_accept openSession_frame moveSamplePoint_def)

lemma effect_skip:
  assumes "isCharging e"
    "lastUpdateRef s = None \<or>
     (\<exists>p. lastUpdateRef s = Some p \<and> (lastLevel p = batteryLevel e \<or> now e \<le> lastTime p))"
  shows "metrics (batteryEffect s e) = metrics s"
    and "history (batteryEffect s e) = history s"
    and "session (batteryEffect s e) = session (openSession e s)"
    and "pastSessions (batteryEffect s e) = pastSessions s"
  using assms
  by (simp_all add: batteryEffect_def recordSample_skip openSession_frame)

lemma effect_stop:
  assumes "\<not> isCharging e"
  shows "metrics (batteryEffect s e) = \<lparr> watts = 0, volts = 0, amps = 0 \<rparr>"
    and "history (batteryEffect s e) = history s"
    and "session (batteryEffect s e) = session (closeSession e s)"
    and "pastSessions (batteryEffect s e) = pastSessions (closeSession e s)"
    and "lastUpdateRef (batteryEffect s e) = None"
  using assms by (simp_all add: batteryEffect_def closeSession_frame)

section \<open>The effect: runs\<close>

lemma run_snoc: "run s (es @ [e]) = batteryEffect (run s es) e"
  by (induction es arbitrary: s) simp_all

lemma foldSample_open:
  assumes "prev = Some cur" "endTime cur = None"
  shows "\<exists>cur'. foldSample w v a prev = Some cur' \<and> endTime cur' = None"
  using assms by (simp add: foldSample_def Let_def)

lemma effect_charging_open:
  assumes "isCharging e"
  shows "\<exists>cur. session (batteryEffect s e) = Some cur \<and> endTime cur = None"
proof (cases "acceptedFrom s e")
  case None
  then have "lastUpdateRef s = None \<or>
     (\<exists>p. lastUpdateRef s = Some p \<and> (lastLevel p = batteryLevel e \<or> now e \<le> lastTime p))"
    using assms by (auto simp: acceptedFrom_def split: option.splits if_splits)
  then show ?thesis
    using openSession_open [of e s] by (simp add: effect_skip(3) [OF assms])
next
  case (Some p)
  then have p: "lastUpdateRef s = Some p" "lastLevel p \<noteq> batteryLevel e" "lastTime p < now e"
    by (auto simp: acceptedFrom_def split: option.splits if_splits)
  obtain cur where "session (openSession e s) = Some cur" "endTime cur = None"
    using openSession_open by blast
  then show ?thesis
    using foldSample_open by (simp add: effect_accept(3) [OF assms p])
qed

lemma effect_ref_open:
  assumes "lastUpdateRef (batteryEffect s e) = Some p"
  shows "\<exists>cur. session (batteryEffect s e) = Some cur \<and> endTime cur = None"
proof (cases "isCharging e")
  case True
  then show ?thesis by (rule effect_charging_open)
next
  case False
  then show ?thesis using assms by (simp add: effect_stop(5))
qed

lemma run_ref_open:
  assumes "lastUpdateRef (run (initialState saved) es) = Some p"
  shows "\<exists>cur. session (run (initialState saved) es) = Some cur \<and> endTime cur = None"
proof (cases es rule: rev_cases)
  case Nil
  then show ?thesis using assms by (simp add: initialState_def)
next
  case (snoc es' e)
  then show ?thesis using assms effect_ref_open by (simp add: run_snoc)
qed

text \<open>
  Claim C5. At any point of a run, while charging with a stored sample point: when the
  delivered level is the stored one (a duplicate delivery), or the clock has not
  advanced since the sample point, the event is not accepted (the wattage quotient is
  not formed), nothing is appended to the telemetry history, and the session with all
  its aggregates, the live metrics and the session history stay as they are.
\<close>

theorem duplicate_or_stale_skipped:
  assumes "isCharging e"
    and "lastUpdateRef (run (initialState saved) es) = Some p"
    and "batteryLevel e = lastLevel p \<or> now e \<le> lastTime p"
  shows "acceptedFrom (run (initialState saved) es) e = None
    \<and> history (batteryEffect (run (initialState saved) es) e) = history (run (initialState saved) es)
    \<and> session (batteryEffect (run (initialState saved) es) e) = session (run (initialState saved) es)
    \<and> metrics (batteryEffect (run (initialState saved) es) e) = metrics (run (initialState saved) es)
    \<and> pastSessions (batteryEffect (run (initialState saved) es) e)
        = pastSessions (run (initialState saved) es)"
proof -
  let ?s = "run (initialState saved) es"
  have skip: "lastUpdateRef ?s = None \<or>
     (\<exists>q. lastUpdateRef ?s = Some q \<and> (lastLevel q = batteryLevel e \<or> now e \<le> lastTime q))"
    using assms(2,3) by auto
  obtain cur where cur: "session ?s = Some cur" "endTime cur = None"
    using run_ref_open [OF assms(2)] by blast
  have "acceptedFrom ?s e = None"
    using assms(2,3) by (auto simp: acceptedFrom_def)
  moreover have "session (batteryEffect ?s e) = session ?s"
    by (simp add: effect_skip(3) [OF assms(1) skip] openSession_idle [OF cur])
  ultimately show ?thesis
    by (simp add: effect_skip [OF assms(1) skip])
qed

theorem duplicate_or_stale_skipped_witness:
  "history (batteryEffect (run (initialState []) [plugged 0.50 0, plugged 0.51 60000]) (plugged 0.51 90000))
     = history (run (initialState []) [plugged 0.50 0, plugged 0.51 60000])
   \<and> session (batteryEffect (run (initialState []) [plugged 0.50 0, plugged 0.51 60000]) (plugged 0.52 60000))
     = session (run (initialState []) [plugged 0.50 0, plugged 0.51 60000])
   \<and> length (history (run (initialState []) [plugged 0.50 0, plugged 0.51 60000])) = 1"
  using duplicate_or_stale_skipped [of "plugged 0.51 90000" "[]" "[plugged 0.50 0, plugged 0.51 60000]"
      "\<lparr> lastTime = 60000, lastLevel = 0.51 \<rparr>"]
    duplicate_or_stale_skipped [of "plugged 0.52 60000" "[]" "[plugged 0.50 0, plugged 0.51 60000]"
      "\<lparr> lastTime = 60000, lastLevel = 0.51 \<rparr>"]
  by (simp add: model_defs)

section \<open>The telemetry history\<close>

lemma sliceLast_length: "length (sliceLast n xs) = min n (length xs)"
  by (simp add: sliceLast_def)

lemma sliceLast_short: "length xs \<le> n \<Longrightarrow> sliceLast n xs = xs"
  by (simp add: sliceLast_def)

lemma set_sliceLast: "set (sliceLast n xs) \<subseteq> set xs"
  by (simp add: sliceLast_def set_drop_subset)

lemma sliceLast_append:
  assumes "n \<le> m + length ys"
  shows "sliceLast n (sliceLast m xs @ ys) = sliceLast n (xs @ ys)"
proof (cases "length xs \<le> m")
  case True
  then show ?thesis by (simp add: sliceLast_short)
next
  case False
  then have m: "m < length xs" by simp
  have "sliceLast m xs @ ys = drop (length xs - m) (xs @ ys)"
    by (simp add: sliceLast_def)
  moreover have "length (sliceLast m xs @ ys) - n + (length xs - m) = length (xs @ ys) - n"
    using assms m by (simp add: sliceLast_length)
  ultimately show ?thesis
    by (simp add: sliceLast_def [of n] del: drop_append length_append)
qed

lemma acceptedFrom_Some:
  "acceptedFrom s e = Some p \<longleftrightarrow>
     isCharging e \<and> lastUpdateRef s = Some p \<and> lastLevel p \<noteq> batteryLevel e \<and> lastTime p < now e"
  by (auto simp: acceptedFrom_def split: option.splits)

lemma acceptedFrom_None:
  "acceptedFrom s e = None \<longleftrightarrow>
     \<not> isCharging e \<or> lastUpdateRef s = None \<or>
     (\<exists>p. lastUpdateRef s = Some p \<and> (lastLevel p = batteryLevel e \<or> now e \<le> lastTime p))"
  by (auto simp: acceptedFrom_def split: option.splits)

lemma effect_history:
  "history (batteryEffect s e) =
     (case acceptedFrom s e of
        None \<Rightarrow> history s
      | Some p \<Rightarrow> sliceLast 49 (history s) @ [logEntry p e])"
proof (cases "acceptedFrom s e")
  case None
  show ?thesis
  proof (cases "isCharging e")
    case True
    have skip: "lastUpdateRef s = None \<or>
       (\<exists>p. lastUpdateRef s = Some p \<and> (lastLevel p = batteryLevel e \<or> now e \<le> lastTime p))"
      using None True by (simp add: acceptedFrom_None)
    show ?thesis
      using None by (simp add: effect_skip(2) [OF True skip])
  next
    case False
    with None show ?thesis by (simp add: effect_stop(2))
  qed
next
  case (Some p)
  then have p: "isCharging e" "lastUpdateRef s = Some p" "lastLevel p \<noteq> batteryLevel e"
      "lastTime p < now e"
    by (simp_all add: acceptedFrom_Some)
  show ?thesis
    using Some by (simp add: effect_accept(2) [OF p])
qed

lemma effect_history_length:
  "length (history s) \<le> 50 \<Longrightarrow> length (history (batteryEffect s e)) \<le> 50"
  by (simp add: effect_history sliceLast_length split: option.split)

lemma history_run:
  "length (history s) \<le> 50 \<Longrightarrow>
     history (run s es) = sliceLast 50 (history s @ acceptedSamples s es)"
proof (induction es arbitrary: s)
  case Nil
  then show ?case by (simp add: sliceLast_short)
next
  case (Cons e es)
  have "history (run s (e # es)) =
      sliceLast 50 (history (batteryEffect s e) @ acceptedSamples (batteryEffect s e) es)"
    using Cons.IH [OF effect_history_length [OF Cons.prems]] by simp
  also have "\<dots> = sliceLast 50 (history s @ acceptedSamples s (e # es))"
  proof (cases "acceptedFrom s e")
    case None
    then show ?thesis by (simp add: effect_history)
  next
    case (Some p)
    have "sliceLast 50 (sliceLast 49 (history s) @ ([logEntry p e] @ acceptedSamples (batteryEffect s e) es))
        = sliceLast 50 (history s @ ([logEntry p e] @ acceptedSamples (batteryEffect s e) es))"
      by (rule sliceLast_append) simp
    with Some show ?thesis by (simp add: effect_history)
  qed
  finally show ?case .
qed

lemma logEntry_sound:
  "status (logEntry p e) = Charging \<and> 0 \<le> wattage (logEntry p e) \<and> wattage (logEntry p e) \<le> 120"
  using cleanWattage_bounds [of p e] by (simp add: logEntry_fields)

lemma acceptedSamples_sound:
  "x \<in> set (acceptedSamples s es) \<Longrightarrow> status x = Charging \<and> 0 \<le> wattage x \<and> wattage x \<le> 120"
proof (induction es arbitrary: s)
  case Nil
  then show ?case by simp
next
  case (Cons e es)
  then show ?case
    using logEntry_sound by (auto split: option.splits)
qed

text \<open>
  Claim C10. Every entry appended to the telemetry history, and so every entry the
  history holds at any point of a run, has the status \<open>charging\<close> (never
  \<open>discharging\<close>) and a wattage in \<open>[0, 120]\<close>.
\<close>

theorem history_entries_charging_bounded:
  "(\<forall>x \<in> set (acceptedSamples (initialState saved) es).
      status x = Charging \<and> status x \<noteq> Discharging \<and> 0 \<le> wattage x \<and> wattage x \<le> 120)
   \<and> (\<forall>x \<in> set (history (run (initialState saved) es)).
      status x = Charging \<and> status x \<noteq> Discharging \<and> 0 \<le> wattage x \<and> wattage x \<le> 120)"
proof -
  have h: "history (run (initialState saved) es)
      = sliceLast 50 (history (initialState saved) @ acceptedSamples (initialState saved) es)"
    by (rule history_run) (simp add: initialState_def)
  have "set (history (run (initialState saved) es)) \<subseteq> set (acceptedSamples (initialState saved) es)"
    unfolding h using set_sliceLast [of 50 "acceptedSamples (initialState saved) es"]
    by (simp add: initialState_def)
  then show ?thesis
    using acceptedSamples_sound by fastforce
qed

theorem history_entries_charging_bounded_witness:
  "history (run (initialState []) [plugged 0.50 0, plugged 0.51 60000]) =
     [\<lparr> timestamp = 60000, level = 51, wattage = 11.55, voltage = 5, amperage = 2.31,
        status = Charging \<rparr>]
   \<and> status (hd (history (run (initialState []) [plugged 0.50 0, plugged 0.51 60000]))) = Charging
   \<and> wattage (hd (history (run (initialState []) [plugged 0.50 0, plugged 0.51 60000]))) \<le> 120"
  using history_entries_charging_bounded [of "[]" "[plugged 0.50 0, plugged 0.51 60000]"]
  by (simp add: model_defs)

text \<open>
  Claim C9. The run of the effect that finds charging stopped leaves the telemetry
  history as it is, while it clears the stored sample point and zeroes the live metrics;
  in whatever follows, the samples of the closed session stay in the history, ahead of
  the new ones, until the cap of 50 entries evicts them.
\<close>

theorem closing_keeps_history:
  assumes "\<not> isCharging e"
  shows "history (batteryEffect s e) = history s
    \<and> lastUpdateRef (batteryEffect s e) = None
    \<and> metrics (batteryEffect s e) = \<lparr> watts = 0, volts = 0, amps = 0 \<rparr>
    \<and> (length (history s) \<le> 50 \<longrightarrow>
         history (run (batteryEffect s e) es)
           = drop (length (history s @ acceptedSamples (batteryEffect s e) es) - 50)
               (history s @ acceptedSamples (batteryEffect s e) es))"
proof -
  have "length (history s) \<le> 50 \<longrightarrow>
      history (run (batteryEffect s e) es)
        = sliceLast 50 (history (batteryEffect s e) @ acceptedSamples (batteryEffect s e) es)"
    by (simp add: history_run effect_stop(2) [OF assms])
  then show ?thesis
    by (simp add: effect_stop [OF assms] sliceLast_def)
qed

theorem closing_keeps_history_witness:
  "history (batteryEffect (run (initialState []) [plugged 0.50 0, plugged 0.51 60000]) (unplugged 0.51 90000))
     = history (run (initialState []) [plugged 0.50 0, plugged 0.51 60000])
   \<and> map timestamp (history (run (batteryEffect (run (initialState []) [plugged 0.50 0, plugged 0.51 60000])
          (unplugged 0.51 90000)) [plugged 0.51 100000, plugged 0.52 160000])) = [60000, 160000]"
  using closing_keeps_history [of "unplugged 0.51 90000"
      "run (initialState []) [plugged 0.50 0, plugged 0.51 60000]"
      "[plugged 0.51 100000, plugged 0.52 160000]"]
  by (simp add: model_defs acceptedFrom_def)

section \<open>Order of the telemetry history\<close>

lemma effect_timestamps:
  assumes srt: "sorted_wrt (<) (map timestamp (history s))"
    and bound: "\<forall>x \<in> set (history s). timestamp x \<le> t"
    and ref: "\<forall>p. lastUpdateRef s = Some p \<longrightarrow> (\<forall>x \<in> set (history s). timestamp x \<le> lastTime p)"
    and clock: "t \<le> now e"
  shows "sorted_wrt (<) (map timestamp (history (batteryEffect s e)))"
    and "\<forall>x \<in> set (history (batteryEffect s e)). timestamp x \<le> now e"
    and "\<forall>p. lastUpdateRef (batteryEffect s e) = Some p \<longrightarrow>
           (\<forall>x \<in> set (history (batteryEffect s e)). timestamp x \<le> lastTime p)"
proof -
  have old: "\<forall>x \<in> set (history s). timestamp x \<le> now e"
    using bound clock by fastforce
  show "sorted_wrt (<) (map timestamp (history (batteryEffect s e)))"
  proof (cases "acceptedFrom s e")
    case None
    then show ?thesis using srt by (simp add: effect_history)
  next
    case (Some p)
    then have p: "lastUpdateRef s = Some p" "lastTime p < now e"
      by (simp_all add: acceptedFrom_Some)
    have "\<forall>x \<in> set (sliceLast 49 (history s)). timestamp x < now e"
      using ref p set_sliceLast [of 49 "history s"] by fastforce
    moreover have "sorted_wrt (<) (map timestamp (sliceLast 49 (history s)))"
      using srt by (simp add: sliceLast_def sorted_wrt_drop flip: drop_map)
    ultimately show ?thesis
      using Some by (simp add: effect_history sorted_wrt_append logEntry_fields)
  qed
  show new: "\<forall>x \<in> set (history (batteryEffect s e)). timestamp x \<le> now e"
  proof (cases "acceptedFrom s e")
    case None
    then show ?thesis using old by (simp add: effect_history)
  next
    case (Some p)
    have "\<forall>x \<in> set (sliceLast 49 (history s)). timestamp x \<le> now e"
      using old set_sliceLast [of 49 "history s"] by fastforce
    then show ?thesis
      using Some by (simp add: effect_history logEntry_fields)
  qed
  show "\<forall>p. lastUpdateRef (batteryEffect s e) = Some p \<longrightarrow>
           (\<forall>x \<in> set (history (batteryEffect s e)). timestamp x \<le> lastTime p)"
  proof (intro allI impI)
    fix q
    assume q: "lastUpdateRef (batteryEffect s e) = Some q"
    then have ch: "isCharging e"
      by (cases "isCharging e") (simp_all add: effect_stop(5))
    have m: "moveSamplePoint e (lastUpdateRef s) = Some q"
      using q ch by (simp add: batteryEffect_def)
    show "\<forall>x \<in> set (history (batteryEffect s e)). timestamp x \<le> lastTime q"
    proof (cases "lastTime q = now e")
      case True
      then show ?thesis using new by simp
    next
      case False
      then have same: "lastUpdateRef s = Some q" "lastLevel q = batteryLevel e"
        using m by (auto simp: moveSamplePoint_def split: option.splits if_splits)
      then have "acceptedFrom s e = None"
        by (simp add: acceptedFrom_def)
      then show ?thesis
        using ref same by (simp add: effect_history)
    qed
  qed
qed

lemma run_timestamps:
  assumes "sorted_wrt (<) (map timestamp (history s))"
    and "\<forall>x \<in> set (history s). timestamp x \<le> t"
    and "\<forall>p. lastUpdateRef s = Some p \<longrightarrow> (\<forall>x \<in> set (history s). timestamp x \<le> lastTime p)"
    and "sorted (map now es)"
    and "\<forall>e \<in> set es. t \<le> now e"
  shows "sorted_wrt (<) (map timestamp (history (run s es)))"
  using assms
proof (induction es arbitrary: s t)
  case Nil
  then show ?case by simp
next
  case (Cons e es)
  have clock: "t \<le> now e" using Cons.prems(5) by simp
  note step = effect_timestamps [OF Cons.prems(1,2,3) clock]
  have "sorted (map now es)" and "\<forall>e' \<in> set es. now e \<le> now e'"
    using Cons.prems(4) by simp_all
  then have "sorted_wrt (<) (map timestamp (history (run (batteryEffect s e) es)))"
    by (rule Cons.IH [OF step])
  then show ?case by simp
qed

text \<open>
  Claim C6, as the code has it. At any point of a run the telemetry history is the last
  50 of the samples accepted so far, in the order of their acceptance (first in, first
  out): it has at most 50 entries, exactly 50 once 50 samples were accepted, and after
  60 accepted samples it is the 50 most recent ones in that order. Its timestamps
  increase strictly whenever the clock readings of the successive events never
  decrease.
\<close>

theorem history_last_fifty:
  "history (run (initialState saved) es)
     = drop (length (acceptedSamples (initialState saved) es) - 50)
         (acceptedSamples (initialState saved) es)
   \<and> length (history (run (initialState saved) es)) \<le> 50
   \<and> (50 \<le> length (acceptedSamples (initialState saved) es) \<longrightarrow>
        length (history (run (initialState saved) es)) = 50)
   \<and> (length (acceptedSamples (initialState saved) es) = 60 \<longrightarrow>
        history (run (initialState saved) es) = drop 10 (acceptedSamples (initialState saved) es))
   \<and> (sorted (map now es) \<longrightarrow>
        sorted_wrt (<) (map timestamp (history (run (initialState saved) es))))"
proof -
  let ?L = "acceptedSamples (initialState saved) es"
  have "history (run (initialState saved) es) = sliceLast 50 (history (initialState saved) @ ?L)"
    by (rule history_run) (simp add: initialState_def)
  then have h: "history (run (initialState saved) es) = drop (length ?L - 50) ?L"
    by (simp add: initialState_def sliceLast_def)
  have len: "length (history (run (initialState saved) es)) \<le> 50"
    unfolding h by simp
  have full: "50 \<le> length ?L \<longrightarrow> length (history (run (initialState saved) es)) = 50"
    unfolding h by simp
  have sixty: "length ?L = 60 \<longrightarrow> history (run (initialState saved) es) = drop 10 ?L"
    unfolding h by simp
  have asc: "sorted (map now es) \<longrightarrow>
      sorted_wrt (<) (map timestamp (history (run (initialState saved) es)))"
  proof
    assume mono: "sorted (map now es)"
    show "sorted_wrt (<) (map timestamp (history (run (initialState saved) es)))"
    proof (cases es)
      case Nil
      then show ?thesis by (simp add: initialState_def)
    next
      case (Cons e es')
      then have "\<forall>e' \<in> set es. now e \<le> now e'"
        using mono by auto
      then show ?thesis
        using mono by (intro run_timestamps [where t = "now e"]) (simp_all add: initialState_def)
    qed
  qed
  show ?thesis using h len full sixty asc by blast
qed

text \<open>
  The clock steps back between the second and the third report: the third is skipped,
  but it moves the sample point, and the fourth is accepted with an earlier timestamp
  than the second. The first event is the run of the effect at mount.
\<close>

theorem history_not_time_ascending:
  "map timestamp (history (run (initialState [])
       [unplugged 0 900, plugged 0.50 1000, plugged 0.51 2000, plugged 0.52 1500, plugged 0.53 1800]))
     = [2000, 1800]
   \<and> \<not> sorted (map timestamp (history (run (initialState [])
       [unplugged 0 900, plugged 0.50 1000, plugged 0.51 2000, plugged 0.52 1500, plugged 0.53 1800])))"
  by (simp add: model_defs)

lemma steadyCharge_accepted:
  assumes "lastUpdateRef s = Some \<lparr> lastTime = int k * 1000, lastLevel = real k / 1000 \<rparr>"
  shows "length (acceptedSamples s (steadyCharge k n)) = n"
  using assms
proof (induction n arbitrary: s k)
  case 0
  then show ?case by simp
next
  case (Suc n)
  let ?e = "plugged (real (Suc k) / 1000) (int (Suc k) * 1000)"
  let ?p = "\<lparr> lastTime = int k * 1000, lastLevel = real k / 1000 \<rparr>"
  have e: "isCharging ?e" "lastLevel ?p \<noteq> batteryLevel ?e" "lastTime ?p < now ?e"
    by (simp_all add: plugged_def)
  have acc: "acceptedFrom s ?e = Some ?p"
    using Suc.prems e by (simp add: acceptedFrom_Some)
  have "lastUpdateRef (batteryEffect s ?e)
      = Some \<lparr> lastTime = now ?e, lastLevel = batteryLevel ?e \<rparr>"
    by (rule effect_accept(5) [OF e(1) Suc.prems e(2,3)])
  then have "lastUpdateRef (batteryEffect s ?e)
      = Some \<lparr> lastTime = int (Suc k) * 1000, lastLevel = real (Suc k) / 1000 \<rparr>"
    by (simp add: plugged_def)
  then have "length (acceptedSamples (batteryEffect s ?e) (steadyCharge (Suc k) n)) = n"
    by (rule Suc.IH)
  then show ?case using acc by simp
qed

theorem history_last_fifty_witness:
  "length (acceptedSamples (initialState []) (plugged 0 0 # steadyCharge 0 60)) = 60
   \<and> length (history (run (initialState []) (plugged 0 0 # steadyCharge 0 60))) = 50
   \<and> history (run (initialState []) (plugged 0 0 # steadyCharge 0 60))
       = drop 10 (acceptedSamples (initialState []) (plugged 0 0 # steadyCharge 0 60))
   \<and> sorted (map now [plugged 0.50 1000, plugged 0.51 2000, plugged 0.52 2500, plugged 0.53 2800])
   \<and> map timestamp (history (run (initialState [])
         [plugged 0.50 1000, plugged 0.51 2000, plugged 0.52 2500, plugged 0.53 2800]))
       = [2000, 2500, 2800]
   \<and> sorted_wrt (<) (map timestamp (history (run (initialState [])
         [plugged 0.50 1000, plugged 0.51 2000, plugged 0.52 2500, plugged 0.53 2800])))"
proof -
  have "lastUpdateRef (batteryEffect (initialState []) (plugged 0 0))
      = Some \<lparr> lastTime = int 0 * 1000, lastLevel = real 0 / 1000 \<rparr>"
    by (simp add: model_defs)
  then have "length (acceptedSamples (batteryEffect (initialState []) (plugged 0 0)) (steadyCharge 0 60)) = 60"
    by (rule steadyCharge_accepted)
  moreover have "acceptedFrom (initialState []) (plugged 0 0) = None"
    by (simp add: acceptedFrom_def initialState_def)
  ultimately have n: "length (acceptedSamples (initialState []) (plugged 0 0 # steadyCharge 0 60)) = 60"
    by simp
  have long: "length (history (run (initialState []) (plugged 0 0 # steadyCharge 0 60))) = 50
     \<and> history (run (initialState []) (plugged 0 0 # steadyCharge 0 60))
       = drop 10 (acceptedSamples (initialState []) (plugged 0 0 # steadyCharge 0 60))"
    using n history_last_fifty [of "[]" "plugged 0 0 # steadyCharge 0 60"] by simp
  have short: "sorted (map now [plugged 0.50 1000, plugged 0.51 2000, plugged 0.52 2500, plugged 0.53 2800])
     \<and> map timestamp (history (run (initialState [])
         [plugged 0.50 1000, plugged 0.51 2000, plugged 0.52 2500, plugged 0.53 2800]))
       = [2000, 2500, 2800]
     \<and> sorted_wrt (<) (map timestamp (history (run (initialState [])
         [plugged 0.50 1000, plugged 0.51 2000, plugged 0.52 2500, plugged 0.53 2800])))"
    using history_last_fifty [of "[]" "[plugged 0.50 1000, plugged 0.51 2000, plugged 0.52 2500, plugged 0.53 2800]"]
    by (simp add: model_defs acceptedFrom_def)
  show ?thesis using n long short by blast
qed

section \<open>The session history\<close>

lemma completedBy_Some:
  "completedBy s e = Some fin \<longleftrightarrow>
     (\<exists>cur. \<not> isCharging e \<and> session s = Some cur \<and> endTime cur = None
        \<and> fin = cur\<lparr> endTime := Some (now e), endLevel := Some (batteryLevel e) \<rparr>)"
  by (auto simp: completedBy_def split: option.splits)

lemma completedBy_closed: "completedBy s e = Some fin \<Longrightarrow> endTime fin \<noteq> None"
  by (auto simp: completedBy_Some)

lemma effect_pastSessions:
  "pastSessions (batteryEffect s e) =
     (case completedBy s e of
        None \<Rightarrow> pastSessions s
      | Some fin \<Rightarrow> take 5 (fin # pastSessions s))"
  by (simp add: batteryEffect_def completedBy_def closeSession_def openSession_frame
      recordSample_def MAX_STORED_SESSIONS_def Let_def split: option.splits prod.splits)

lemma effect_session_closing:
  "completedBy s e = Some fin \<Longrightarrow> session (batteryEffect s e) = Some fin"
  by (auto simp: completedBy_Some effect_stop(3) closeSession_def Let_def)

lemma pastSessions_run:
  "pastSessions (run s es) =
     (if completedSessions s es = [] then pastSessions s
      else take 5 (rev (completedSessions s es) @ pastSessions s))"
proof (induction es arbitrary: s)
  case Nil
  then show ?case by simp
next
  case (Cons e es)
  show ?case
  proof (cases "completedBy s e")
    case None
    then show ?thesis by (simp add: Cons.IH effect_pastSessions)
  next
    case (Some fin)
    have "take 5 (rev (completedSessions (batteryEffect s e) es) @ take 5 (fin # pastSessions s))
        = take 5 (rev (completedSessions (batteryEffect s e) es) @ fin # pastSessions s)"
      by (simp only: take_append take_take) simp
    then show ?thesis
      using Some by (simp add: Cons.IH effect_pastSessions)
  qed
qed

lemma completedSessions_closed:
  "x \<in> set (completedSessions s es) \<Longrightarrow> endTime x \<noteq> None"
proof (induction es arbitrary: s)
  case Nil
  then show ?case by simp
next
  case (Cons e es)
  then show ?case
    using completedBy_closed by (auto split: option.splits)
qed

lemma pastSessions_closed:
  assumes "\<forall>x \<in> set (pastSessions s). endTime x \<noteq> None"
  shows "\<forall>x \<in> set (pastSessions (run s es)). endTime x \<noteq> None"
proof
  fix x
  assume "x \<in> set (pastSessions (run s es))"
  then have "x \<in> set (completedSessions s es) \<or> x \<in> set (pastSessions s)"
    by (auto simp: pastSessions_run split: if_splits dest!: in_set_takeD)
  then show "endTime x \<noteq> None"
    using assms completedSessions_closed by blast
qed

text \<open>
  Claim C7. At any point of a run the session history is the five most recent of the
  sessions completed so far, most recent first, followed, while fewer than five were
  completed, by the sessions read from storage at the start; so it never holds more
  than 5 sessions when no more than 5 were read at the start, its sessions are closed
  when those read at the start are, and after 7 completed sessions it is exactly the 5
  most recent of them, most recent first.
\<close>

theorem pastSessions_five_most_recent:
  "(completedSessions (initialState saved) es \<noteq> [] \<or> length saved \<le> 5 \<longrightarrow>
      pastSessions (run (initialState saved) es)
        = take 5 (rev (completedSessions (initialState saved) es) @ saved))
   \<and> (length saved \<le> 5 \<longrightarrow> length (pastSessions (run (initialState saved) es)) \<le> 5)
   \<and> ((\<forall>x \<in> set saved. endTime x \<noteq> None) \<longrightarrow>
        (\<forall>x \<in> set (pastSessions (run (initialState saved) es)). endTime x \<noteq> None))
   \<and> (length (completedSessions (initialState saved) es) = 7 \<longrightarrow>
        pastSessions (run (initialState saved) es)
          = rev (drop 2 (completedSessions (initialState saved) es)))"
proof -
  let ?C = "completedSessions (initialState saved) es"
  have r: "pastSessions (run (initialState saved) es)
      = (if ?C = [] then saved else take 5 (rev ?C @ saved))"
    by (simp add: pastSessions_run initialState_def)
  have a: "?C \<noteq> [] \<or> length saved \<le> 5 \<longrightarrow>
      pastSessions (run (initialState saved) es) = take 5 (rev ?C @ saved)"
    unfolding r by simp
  have b: "length saved \<le> 5 \<longrightarrow> length (pastSessions (run (initialState saved) es)) \<le> 5"
    unfolding r by (simp del: take_append)
  have c: "(\<forall>x \<in> set saved. endTime x \<noteq> None) \<longrightarrow>
      (\<forall>x \<in> set (pastSessions (run (initialState saved) es)). endTime x \<noteq> None)"
    using pastSessions_closed [of "initialState saved" es] by (simp add: initialState_def)
  have d: "length ?C = 7 \<longrightarrow> pastSessions (run (initialState saved) es) = rev (drop 2 ?C)"
  proof
    assume n: "length ?C = 7"
    then have "?C \<noteq> []" by auto
    then have "pastSessions (run (initialState saved) es) = take 5 (rev ?C @ saved)"
      unfolding r by simp
    also have "\<dots> = take 5 (rev ?C)" using n by simp
    also have "\<dots> = rev (drop 2 ?C)" using n by (simp add: take_rev)
    finally show "pastSessions (run (initialState saved) es) = rev (drop 2 ?C)" .
  qed
  show ?thesis using a b c d by blast
qed

theorem pastSessions_five_most_recent_witness:
  "length (completedSessions (initialState []) sevenSessions) = 7
   \<and> map startTime (pastSessions (run (initialState []) sevenSessions))
       = [7000, 6000, 5000, 4000, 3000]
   \<and> map endTime (pastSessions (run (initialState []) sevenSessions))
       = [Some 7500, Some 6500, Some 5500, Some 4500, Some 3500]
   \<and> pastSessions (run (initialState []) sevenSessions)
       = rev (drop 2 (completedSessions (initialState []) sevenSessions))"
  using pastSessions_five_most_recent [of "[]" sevenSessions]
  by (simp add: sevenSessions_def model_defs completedBy_def)

section \<open>The session life cycle\<close>

lemma openSessions_bound:
  assumes "\<forall>x \<in> set (pastSessions s). endTime x \<noteq> None"
  shows "length (openSessions s) \<le> 1"
proof -
  have "filter isOpen (pastSessions s) = []"
    using assms by (simp add: isOpen_def filter_empty_conv)
  then show ?thesis
    by (simp add: openSessions_def split: option.split)
qed

lemma completedBy_charging: "isCharging e \<Longrightarrow> completedBy s e = None"
  by (simp add: completedBy_def split: option.split)

lemma completedBy_after_stop:
  assumes "\<not> isCharging e"
  shows "completedBy (batteryEffect s e) e' = None"
proof -
  have "session (closeSession e s) = None \<or>
      (\<exists>cur. session (closeSession e s) = Some cur \<and> endTime cur \<noteq> None)"
    by (auto simp: closeSession_def Let_def split: option.split)
  then show ?thesis
    by (auto simp: completedBy_def effect_stop(3) [OF assms])
qed

lemma effect_session_idle:
  assumes "\<not> isCharging e" "completedBy s e = None"
  shows "session (batteryEffect s e) = session s"
  using assms
  by (auto simp: effect_stop(3) completedBy_def closeSession_def split: option.splits if_splits)

text \<open>
  Claim C2. At any point of a run at most one session is open, the sessions read from
  storage being closed. When a run of the effect that finds the tracker charging is
  followed by one that finds it not charging, the session open in between is closed by
  the second: it gets the current time as end time and the current level as end level,
  it is put at index 0 of the session history, and the live metrics are reset to zero.
  It is closed once: a further run that finds the tracker not charging changes neither
  the session nor the session history.
\<close>

theorem session_closed_once:
  "((\<forall>x \<in> set saved. endTime x \<noteq> None) \<longrightarrow>
      length (openSessions (run (initialState saved) es)) \<le> 1)
   \<and> (isCharging e1 \<and> \<not> isCharging e2 \<longrightarrow>
        (\<exists>cur. session (batteryEffect s e1) = Some cur \<and> endTime cur = None
           \<and> session (batteryEffect (batteryEffect s e1) e2)
               = Some (cur\<lparr> endTime := Some (now e2), endLevel := Some (batteryLevel e2) \<rparr>)
           \<and> pastSessions (batteryEffect (batteryEffect s e1) e2) ! 0
               = cur\<lparr> endTime := Some (now e2), endLevel := Some (batteryLevel e2) \<rparr>
           \<and> pastSessions (batteryEffect (batteryEffect s e1) e2)
               = take 5 (cur\<lparr> endTime := Some (now e2), endLevel := Some (batteryLevel e2) \<rparr>
                           # pastSessions s)
           \<and> metrics (batteryEffect (batteryEffect s e1) e2) = \<lparr> watts = 0, volts = 0, amps = 0 \<rparr>
           \<and> lastUpdateRef (batteryEffect (batteryEffect s e1) e2) = None
           \<and> (\<not> isCharging e3 \<longrightarrow>
                session (batteryEffect (batteryEffect (batteryEffect s e1) e2) e3)
                  = session (batteryEffect (batteryEffect s e1) e2)
                \<and> pastSessions (batteryEffect (batteryEffect (batteryEffect s e1) e2) e3)
                  = pastSessions (batteryEffect (batteryEffect s e1) e2))))"
proof -
  have one: "(\<forall>x \<in> set saved. endTime x \<noteq> None) \<longrightarrow>
      length (openSessions (run (initialState saved) es)) \<le> 1"
  proof
    assume "\<forall>x \<in> set saved. endTime x \<noteq> None"
    then have "\<forall>x \<in> set (pastSessions (initialState saved)). endTime x \<noteq> None"
      by (simp add: initialState_def)
    then have "\<forall>x \<in> set (pastSessions (run (initialState saved) es)). endTime x \<noteq> None"
      by (rule pastSessions_closed)
    then show "length (openSessions (run (initialState saved) es)) \<le> 1"
      by (rule openSessions_bound)
  qed
  have edge: "\<exists>cur. session (batteryEffect s e1) = Some cur \<and> endTime cur = None
           \<and> session (batteryEffect (batteryEffect s e1) e2)
               = Some (cur\<lparr> endTime := Some (now e2), endLevel := Some (batteryLevel e2) \<rparr>)
           \<and> pastSessions (batteryEffect (batteryEffect s e1) e2) ! 0
               = cur\<lparr> endTime := Some (now e2), endLevel := Some (batteryLevel e2) \<rparr>
           \<and> pastSessions (batteryEffect (batteryEffect s e1) e2)
               = take 5 (cur\<lparr> endTime := Some (now e2), endLevel := Some (batteryLevel e2) \<rparr>
                           # pastSessions s)
           \<and> metrics (batteryEffect (batteryEffect s e1) e2) = \<lparr> watts = 0, volts = 0, amps = 0 \<rparr>
           \<and> lastUpdateRef (batteryEffect (batteryEffect s e1) e2) = None
           \<and> (\<not> isCharging e3 \<longrightarrow>
                session (batteryEffect (batteryEffect (batteryEffect s e1) e2) e3)
                  = session (batteryEffect (batteryEffect s e1) e2)
                \<and> pastSessions (batteryEffect (batteryEffect (batteryEffect s e1) e2) e3)
                  = pastSessions (batteryEffect (batteryEffect s e1) e2))"
    if ch: "isCharging e1" and st: "\<not> isCharging e2"
  proof -
    let ?s1 = "batteryEffect s e1"
    let ?s2 = "batteryEffect ?s1 e2"
    obtain cur where cur: "session ?s1 = Some cur" "endTime cur = None"
      using effect_charging_open [OF ch] by blast
    let ?fin = "cur\<lparr> endTime := Some (now e2), endLevel := Some (batteryLevel e2) \<rparr>"
    have fin: "completedBy ?s1 e2 = Some ?fin"
      using cur st by (simp add: completedBy_def)
    have p1: "pastSessions ?s1 = pastSessions s"
      by (simp add: effect_pastSessions completedBy_charging [OF ch])
    have s2: "session ?s2 = Some ?fin"
      by (rule effect_session_closing [OF fin])
    have p2: "pastSessions ?s2 = take 5 (?fin # pastSessions s)"
      unfolding effect_pastSessions [of ?s1 e2] fin by (simp add: p1)
    have again: "\<not> isCharging e3 \<longrightarrow>
        session (batteryEffect ?s2 e3) = session ?s2
        \<and> pastSessions (batteryEffect ?s2 e3) = pastSessions ?s2"
      using completedBy_after_stop [OF st, of ?s1 e3]
      by (simp add: effect_session_idle effect_pastSessions)
    show ?thesis
      using cur s2 p2 again by (simp add: effect_stop(1,5) [OF st])
  qed
  show ?thesis using one edge by blast
qed

theorem session_closed_once_witness:
  "length (openSessions (run (initialState []) sevenSessions)) \<le> 1
   \<and> session (batteryEffect (initialState []) (plugged 0.40 1000))
       = Some \<lparr> startTime = 1000, endTime = None, startLevel = 0.40, endLevel = None,
                avgWattage = 0, maxWattage = 0, avgVoltage = 0, maxAmperage = 0, totalEnergyWh = 0 \<rparr>
   \<and> pastSessions (batteryEffect (batteryEffect (initialState []) (plugged 0.40 1000)) (unplugged 0.42 5000))
       = [\<lparr> startTime = 1000, endTime = Some 5000, startLevel = 0.40, endLevel = Some 0.42,
            avgWattage = 0, maxWattage = 0, avgVoltage = 0, maxAmperage = 0, totalEnergyWh = 0 \<rparr>]
   \<and> pastSessions (batteryEffect (batteryEffect (batteryEffect (initialState []) (plugged 0.40 1000))
         (unplugged 0.42 5000)) (unplugged 0.41 6000))
       = pastSessions (batteryEffect (batteryEffect (initialState []) (plugged 0.40 1000)) (unplugged 0.42 5000))"
  using session_closed_once [of "[]" sevenSessions "plugged 0.40 1000" "unplugged 0.42 5000"
      "initialState []" "unplugged 0.41 6000"]
  by (simp add: model_defs)

section \<open>The session averages\<close>

lemma foldSample_averages:
  "foldSample w v a (Some cur) = Some cur' \<Longrightarrow>
     avgWattage cur' = (if avgWattage cur = 0 then w else (avgWattage cur + w) / 2)
     \<and> avgVoltage cur' = (if avgVoltage cur = 0 then v else (avgVoltage cur + v) / 2)
     \<and> endTime cur' = endTime cur"
  by (auto simp: foldSample_def Let_def)

lemma effect_averages:
  assumes "isCharging e" and "lastUpdateRef s = Some p"
    and "lastLevel p \<noteq> batteryLevel e" and "lastTime p < now e"
    and "session s = Some cur" and "endTime cur = None"
  shows "\<exists>cur'. session (batteryEffect s e) = Some cur' \<and> endTime cur' = None
    \<and> avgWattage cur' =
        (if avgWattage cur = 0 then watts (metrics (batteryEffect s e))
         else (avgWattage cur + watts (metrics (batteryEffect s e))) / 2)
    \<and> avgVoltage cur' =
        (if avgVoltage cur = 0 then volts (metrics (batteryEffect s e))
         else (avgVoltage cur + volts (metrics (batteryEffect s e))) / 2)"
proof -
  have o: "openSession e s = s"
    by (rule openSession_idle [OF assms(5,6)])
  obtain cur' where c: "foldSample (cleanWattage p e) (voltage (logEntry p e))
      (amperage (logEntry p e)) (Some cur) = Some cur'"
    by (simp add: foldSample_def Let_def)
  show ?thesis
    using foldSample_averages [OF c] c
    by (simp add: effect_accept(1,3) [OF assms(1-4)] o assms(5,6))
qed

text \<open>
  Claim C3, as the code has it. An accepted sample with wattage \<open>w\<close> and volts \<open>v\<close>
  sets the average wattage of the open session to \<open>w\<close> when that average is 0, and to
  \<open>(avgWattage + w) / 2\<close> otherwise; the average voltage follows the same recurrence
  with \<open>v\<close>. So after the first two samples of a session, of wattages \<open>w1\<close> and \<open>w2\<close>,
  the average wattage is \<open>(w1 + w2) / 2\<close> when \<open>w1\<close> is not 0, and \<open>w2\<close> when \<open>w1\<close>
  is 0.
\<close>

theorem average_recurrence:
  assumes "isCharging e1" and "lastUpdateRef s = Some p"
    and "lastLevel p \<noteq> batteryLevel e1" and "lastTime p < now e1"
    and "session s = Some cur" and "endTime cur = None"
  shows "\<exists>cur1. session (batteryEffect s e1) = Some cur1
    \<and> avgWattage cur1 =
        (if avgWattage cur = 0 then watts (metrics (batteryEffect s e1))
         else (avgWattage cur + watts (metrics (batteryEffect s e1))) / 2)
    \<and> avgVoltage cur1 =
        (if avgVoltage cur = 0 then volts (metrics (batteryEffect s e1))
         else (avgVoltage cur + volts (metrics (batteryEffect s e1))) / 2)
    \<and> (avgWattage cur = 0 \<and> avgVoltage cur = 0 \<and> isCharging e2
          \<and> batteryLevel e1 \<noteq> batteryLevel e2 \<and> now e1 < now e2 \<longrightarrow>
        (\<exists>cur2. session (batteryEffect (batteryEffect s e1) e2) = Some cur2
           \<and> avgWattage cur2 =
               (if watts (metrics (batteryEffect s e1)) = 0
                then watts (metrics (batteryEffect (batteryEffect s e1) e2))
                else (watts (metrics (batteryEffect s e1))
                      + watts (metrics (batteryEffect (batteryEffect s e1) e2))) / 2)
           \<and> avgVoltage cur2 =
               (if volts (metrics (batteryEffect s e1)) = 0
                then volts (metrics (batteryEffect (batteryEffect s e1) e2))
                else (volts (metrics (batteryEffect s e1))
                      + volts (metrics (batteryEffect (batteryEffect s e1) e2))) / 2)))"
proof -
  let ?s1 = "batteryEffect s e1"
  obtain cur1 where c1: "session ?s1 = Some cur1" "endTime cur1 = None"
    and w1: "avgWattage cur1 =
        (if avgWattage cur = 0 then watts (metrics ?s1) else (avgWattage cur + watts (metrics ?s1)) / 2)"
    and v1: "avgVoltage cur1 =
        (if avgVoltage cur = 0 then volts (metrics ?s1) else (avgVoltage cur + volts (metrics ?s1)) / 2)"
    using effect_averages [OF assms] by blast
  have two: "\<exists>cur2. session (batteryEffect ?s1 e2) = Some cur2
       \<and> avgWattage cur2 =
           (if watts (metrics ?s1) = 0 then watts (metrics (batteryEffect ?s1 e2))
            else (watts (metrics ?s1) + watts (metrics (batteryEffect ?s1 e2))) / 2)
       \<and> avgVoltage cur2 =
           (if volts (metrics ?s1) = 0 then volts (metrics (batteryEffect ?s1 e2))
            else (volts (metrics ?s1) + volts (metrics (batteryEffect ?s1 e2))) / 2)"
    if fresh: "avgWattage cur = 0" "avgVoltage cur = 0" and ch: "isCharging e2"
      and lv: "batteryLevel e1 \<noteq> batteryLevel e2" and tm: "now e1 < now e2"
  proof -
    let ?q = "\<lparr> lastTime = now e1, lastLevel = batteryLevel e1 \<rparr>"
    have q: "lastUpdateRef ?s1 = Some ?q"
      by (rule effect_accept(5) [OF assms(1-4)])
    have "\<exists>cur2. session (batteryEffect ?s1 e2) = Some cur2 \<and> endTime cur2 = None
      \<and> avgWattage cur2 =
          (if avgWattage cur1 = 0 then watts (metrics (batteryEffect ?s1 e2))
           else (avgWattage cur1 + watts (metrics (batteryEffect ?s1 e2))) / 2)
      \<and> avgVoltage cur2 =
          (if avgVoltage cur1 = 0 then volts (metrics (batteryEffect ?s1 e2))
           else (avgVoltage cur1 + volts (metrics (batteryEffect ?s1 e2))) / 2)"
      by (rule effect_averages [OF ch q _ _ c1]) (simp_all add: lv tm)
    moreover have "avgWattage cur1 = watts (metrics ?s1)" "avgVoltage cur1 = volts (metrics ?s1)"
      using w1 v1 fresh by simp_all
    ultimately show ?thesis
      by metis
  qed
  show ?thesis
    using c1 w1 v1 two by blast
qed

theorem average_recurrence_witness:
  "map wattage (history (batteryEffect (batteryEffect (run (initialState []) [plugged 0.50 0])
       (plugged 0.51 60000)) (plugged 0.53 120000))) = [11.55, 23.1]
   \<and> map_option avgWattage (session (batteryEffect (run (initialState []) [plugged 0.50 0])
       (plugged 0.51 60000))) = Some 11.55
   \<and> map_option avgWattage (session (batteryEffect (batteryEffect (run (initialState []) [plugged 0.50 0])
       (plugged 0.51 60000)) (plugged 0.53 120000))) = Some ((11.55 + 23.1) / 2)
   \<and> map_option avgVoltage (session (batteryEffect (batteryEffect (run (initialState []) [plugged 0.50 0])
       (plugged 0.51 60000)) (plugged 0.53 120000))) = Some ((5 + 9) / 2)"
  using average_recurrence [of "plugged 0.51 60000" "run (initialState []) [plugged 0.50 0]"
      "\<lparr> lastTime = 0, lastLevel = 0.50 \<rparr>" "newSession (plugged 0.50 0)" "plugged 0.53 120000"]
  by (simp add: model_defs)

text \<open>
  The level drops from 0.50 to 0.49 while charging, so the first sample is clamped to 0
  watts; the second sample, of 11.55 watts, is then taken for the first. The first event
  is the run of the effect at mount.
\<close>

theorem average_after_zero_sample:
  "map wattage (history (run (initialState [])
       [unplugged 0 0, plugged 0.50 1000, plugged 0.49 61000, plugged 0.50 121000])) = [0, 11.55]
   \<and> map_option avgWattage (session (run (initialState [])
       [unplugged 0 0, plugged 0.50 1000, plugged 0.49 61000, plugged 0.50 121000])) = Some 11.55
   \<and> map_option avgWattage (session (run (initialState [])
       [unplugged 0 0, plugged 0.50 1000, plugged 0.49 61000, plugged 0.50 121000]))
       \<noteq> Some ((0 + 11.55) / 2)"
  by (simp add: model_defs)

section \<open>The insight service: properties\<close>

text \<open>
  Claim C8. \<^verbatim>\<open>getChargingInsights\<close> never throws: however the call of the text
  generator ends, it returns, either the generated text or, when the call failed, the
  fixed fallback string. The continuation of \<^verbatim>\<open>triggerAiAnalysis\<close> then completes
  and leaves session, session history, telemetry history, live metrics and sample point
  as they are, whatever the outcome. And the run of the effect that closes a session has
  closed it and put it first in the session history by itself, with the insight text
  still untouched and the loading flag set; the continuation keeps it so.
\<close>

theorem insight_failure_contained:
  "(\<exists>r. getChargingInsights outcome = Inr r
        \<and> (\<forall>txt. outcome = Inr txt \<longrightarrow> r = txt)
        \<and> (\<forall>err. outcome = Inl err \<longrightarrow> r = Some ''Unable to generate AI insights at this moment.''))
   \<and> (\<exists>s'. triggerAiAnalysisResume outcome s = Inr s'
        \<and> session s' = session s \<and> pastSessions s' = pastSessions s
        \<and> history s' = history s \<and> metrics s' = metrics s
        \<and> lastUpdateRef s' = lastUpdateRef s \<and> \<not> isLoadingInsight s'
        \<and> (\<forall>err. outcome = Inl err \<longrightarrow>
              aiInsight s' = ''Unable to generate AI insights at this moment.''))
   \<and> (\<forall>fin. completedBy s e = Some fin \<longrightarrow>
        session (batteryEffect s e) = Some fin
        \<and> pastSessions (batteryEffect s e) ! 0 = fin
        \<and> aiInsight (batteryEffect s e) = aiInsight s
        \<and> isLoadingInsight (batteryEffect s e)
        \<and> (\<exists>s'. triggerAiAnalysisResume outcome (batteryEffect s e) = Inr s'
              \<and> session s' = Some fin \<and> pastSessions s' ! 0 = fin
              \<and> history s' = history s))"
proof -
  have g: "\<exists>r. getChargingInsights outcome = Inr r
        \<and> (\<forall>txt. outcome = Inr txt \<longrightarrow> r = txt)
        \<and> (\<forall>err. outcome = Inl err \<longrightarrow> r = Some ''Unable to generate AI insights at this moment.'')"
    by (cases outcome) (simp_all add: getChargingInsights_def)
  have r: "\<exists>s'. triggerAiAnalysisResume outcome t = Inr s'
        \<and> session s' = session t \<and> pastSessions s' = pastSessions t
        \<and> history s' = history t \<and> metrics s' = metrics t
        \<and> lastUpdateRef s' = lastUpdateRef t \<and> \<not> isLoadingInsight s'
        \<and> (\<forall>err. outcome = Inl err \<longrightarrow>
              aiInsight s' = ''Unable to generate AI insights at this moment.'')" for t
    by (cases outcome) (simp_all add: triggerAiAnalysisResume_def getChargingInsights_def)
  have c: "session (batteryEffect s e) = Some fin
        \<and> pastSessions (batteryEffect s e) ! 0 = fin
        \<and> aiInsight (batteryEffect s e) = aiInsight s
        \<and> isLoadingInsight (batteryEffect s e)
        \<and> (\<exists>s'. triggerAiAnalysisResume outcome (batteryEffect s e) = Inr s'
              \<and> session s' = Some fin \<and> pastSessions s' ! 0 = fin
              \<and> history s' = history s)"
    if fin: "completedBy s e = Some fin" for fin
  proof -
    have st: "\<not> isCharging e"
      using fin by (simp add: completedBy_Some)
    have a: "session (batteryEffect s e) = Some fin"
      by (rule effect_session_closing [OF fin])
    have b: "pastSessions (batteryEffect s e) ! 0 = fin"
      by (simp add: effect_pastSessions fin)
    have i: "aiInsight (batteryEffect s e) = aiInsight s"
      using st by (simp add: batteryEffect_def closeSession_frame)
    have l: "isLoadingInsight (batteryEffect s e)"
      using fin by (auto simp: completedBy_Some batteryEffect_def closeSession_def Let_def)
    have h: "history (batteryEffect s e) = history s"
      by (rule effect_stop(2) [OF st])
    show ?thesis
      using a b i l h r [of "batteryEffect s e"] by auto
  qed
  show ?thesis using g r [of s] c by blast
qed

theorem insight_failure_contained_witness:
  "getChargingInsights (Inl (JsError ''quota exceeded''))
     = Inr (Some ''Unable to generate AI insights at this moment.'')
   \<and> getChargingInsights (Inr (Some ''Efficient fast charging.'')) = Inr (Some ''Efficient fast charging.'')
   \<and> map_sum id session (triggerAiAnalysisResume (Inl (JsError ''quota exceeded''))
        (batteryEffect (batteryEffect (initialState []) (plugged 0.40 1000)) (unplugged 0.42 5000)))
     = Inr (session (batteryEffect (batteryEffect (initialState []) (plugged 0.40 1000)) (unplugged 0.42 5000)))
   \<and> map_sum id aiInsight (triggerAiAnalysisResume (Inl (JsError ''quota exceeded''))
        (batteryEffect (batteryEffect (initialState []) (plugged 0.40 1000)) (unplugged 0.42 5000)))
     = Inr ''Unable to generate AI insights at this moment.''"
  using insight_failure_contained [of "Inl (JsError ''quota exceeded'')"
      "batteryEffect (initialState []) (plugged 0.40 1000)" "unplugged 0.42 5000"]
    insight_failure_contained [of "Inr (Some ''Efficient fast charging.'')"
      "batteryEffect (batteryEffect (initialState []) (plugged 0.40 1000)) (unplugged 0.42 5000)"
      "unplugged 0.42 5000"]
  by (simp add: model_defs getChargingInsights_def triggerAiAnalysisResume_def)

section \<open>Rounding: properties\<close>

lemma roundEven_near:
  "\<bar>q - of_int (roundEven q)\<bar> < 1 / 2
   \<or> (\<bar>q - of_int (roundEven q)\<bar> = 1 / 2 \<and> even (roundEven q))"
proof -
  define f where "f = \<lfloor>q\<rfloor>"
  have f: "of_int f \<le> q" "q < of_int f + 1"
    unfolding f_def by linarith+
  have "roundEven q = (if q - of_int f < 1 / 2 then f
         else if 1 / 2 < q - of_int f then f + 1
         else if even f then f else f + 1)"
    by (simp add: roundEven_def f_def)
  then show ?thesis
    using f by (auto simp: abs_if)
qed

lemma roundEven_eqI:
  assumes "\<bar>q - of_int k\<bar> < 1 / 2 \<or> (\<bar>q - of_int k\<bar> = 1 / 2 \<and> even k)"
  shows "roundEven q = k"
proof -
  let ?r = "roundEven q"
  have near: "\<bar>q - of_int ?r\<bar> < 1 / 2 \<or> (\<bar>q - of_int ?r\<bar> = 1 / 2 \<and> even ?r)"
    by (rule roundEven_near)
  have "\<bar>real_of_int ?r - real_of_int k\<bar> \<le> 1"
    using assms near by linarith
  then have d: "\<bar>?r - k\<bar> \<le> 1"
    by linarith
  show ?thesis
  proof (rule ccontr)
    assume ne: "?r \<noteq> k"
    with d have one: "\<bar>?r - k\<bar> = 1" by linarith
    then have o: "\<bar>real_of_int ?r - real_of_int k\<bar> = 1"
      by linarith
    have tie: "\<bar>q - of_int ?r\<bar> = 1 / 2 \<and> even ?r" "\<bar>q - of_int k\<bar> = 1 / 2 \<and> even k"
      using assms near o by linarith+
    then have "even (?r - k)" by simp
    with one show False by presburger
  qed
qed

lemma roundEven_of_int [simp]: "roundEven (of_int k) = k"
  by (rule roundEven_eqI) simp

lemma roundEven_minus: "roundEven (- q) = - roundEven q"
proof (rule roundEven_eqI)
  have "\<bar>- q - of_int (- roundEven q)\<bar> = \<bar>q - of_int (roundEven q)\<bar>"
    by simp
  then show "\<bar>- q - of_int (- roundEven q)\<bar> < 1 / 2
      \<or> (\<bar>- q - of_int (- roundEven q)\<bar> = 1 / 2 \<and> even (- roundEven q))"
    using roundEven_near [of q] by simp
qed

lemma roundEven_mono:
  assumes "q \<le> q'"
  shows "roundEven q \<le> roundEven q'"
proof (rule ccontr)
  assume "\<not> roundEven q \<le> roundEven q'"
  then have "roundEven q' + 1 \<le> roundEven q" by simp
  then have gap: "real_of_int (roundEven q') + 1 \<le> real_of_int (roundEven q)"
    by linarith
  have "\<bar>q - of_int (roundEven q)\<bar> \<le> 1 / 2" "\<bar>q' - of_int (roundEven q')\<bar> \<le> 1 / 2"
    using roundEven_near [of q] roundEven_near [of q'] by linarith+
  then have "q = q'"
    using gap assms by linarith
  then show False
    using gap by simp
qed


lemma powr_two_int: "2 powr real_of_int k = 2 powi k"
  by (rule powr_real_of_int') simp_all

lemma log2_bounds:
  assumes "x \<noteq> 0"
  shows "2 powi \<lfloor>log 2 \<bar>x\<bar>\<rfloor> \<le> \<bar>x\<bar>" and "\<bar>x\<bar> < 2 powi (\<lfloor>log 2 \<bar>x\<bar>\<rfloor> + 1)"
proof -
  have pos: "0 < \<bar>x\<bar>" using assms by simp
  define e where "e = \<lfloor>log 2 \<bar>x\<bar>\<rfloor>"
  have "2 powr real_of_int e \<le> \<bar>x\<bar> \<and> \<bar>x\<bar> < 2 powr (real_of_int e + 1)"
    using floor_log_eq_powr_iff [OF pos, of 2 e] by (simp add: e_def)
  then have "2 powr real_of_int e \<le> \<bar>x\<bar> \<and> \<bar>x\<bar> < 2 powr real_of_int (e + 1)"
    by simp
  then have "2 powi e \<le> \<bar>x\<bar> \<and> \<bar>x\<bar> < 2 powi (e + 1)"
    by (simp only: powr_two_int)
  then show "2 powi \<lfloor>log 2 \<bar>x\<bar>\<rfloor> \<le> \<bar>x\<bar>" and "\<bar>x\<bar> < 2 powi (\<lfloor>log 2 \<bar>x\<bar>\<rfloor> + 1)"
    by (simp_all add: e_def)
qed

lemma log2_eqI:
  assumes "2 powi e \<le> \<bar>x\<bar>" "\<bar>x\<bar> < 2 powi (e + 1)"
  shows "\<lfloor>log 2 \<bar>x\<bar>\<rfloor> = e"
proof -
  have "0 < (2::real) powi e" by simp
  then have pos: "0 < \<bar>x\<bar>" using assms(1) by linarith
  have "2 powr real_of_int e \<le> \<bar>x\<bar> \<and> \<bar>x\<bar> < 2 powr real_of_int (e + 1)"
    using assms by (simp only: powr_two_int)
  then have "2 powr real_of_int e \<le> \<bar>x\<bar> \<and> \<bar>x\<bar> < 2 powr (real_of_int e + 1)"
    by simp
  then show ?thesis
    using floor_log_eq_powr_iff [OF pos, of 2 e] by simp
qed

lemma ulp_positive [simp]: "0 < ulp x"
  by (simp add: ulp_def)

lemma ulp_nonneg [simp]: "0 \<le> ulp x"
  by (simp add: ulp_def)

lemma binade_minus [simp]: "binade (- x) = binade x"
  by (simp add: binade_def)

lemma ulp_minus [simp]: "ulp (- x) = ulp x"
  by (simp add: ulp_def)

lemma toDouble_minus: "toDouble (- x) = - toDouble x"
  by (simp add: toDouble_def roundEven_minus)

lemma toDouble_zero [simp]: "toDouble 0 = 0"
  by (simp add: toDouble_def)

lemma toDouble_nonneg: "0 \<le> x \<Longrightarrow> 0 \<le> toDouble x"
proof -
  assume "0 \<le> x"
  then have "0 \<le> x / ulp x" by (rule divide_nonneg_pos) (rule ulp_positive)
  then have "roundEven 0 \<le> roundEven (x / ulp x)" by (rule roundEven_mono)
  then have "0 \<le> roundEven (x / ulp x)" using roundEven_of_int [of 0] by simp
  then have "0 \<le> real_of_int (roundEven (x / ulp x)) * ulp x"
    by (intro mult_nonneg_nonneg) simp_all
  then show ?thesis by (simp add: toDouble_def)
qed

lemma toDouble_nonpos: "x \<le> 0 \<Longrightarrow> toDouble x \<le> 0"
  using toDouble_nonneg [of "- x"] by (simp add: toDouble_minus)

lemma two_powi_less_cancel: "(2::real) powi a < 2 powi b \<Longrightarrow> a < b"
proof (rule ccontr)
  assume lt: "(2::real) powi a < 2 powi b" and "\<not> a < b"
  then have "b \<le> a" by simp
  then have "(2::real) powi b \<le> 2 powi a" by (rule power_int_increasing) simp
  with lt show False by simp
qed

lemma ulp_nonzero [simp]: "ulp x \<noteq> 0"
  using ulp_positive [of x] by linarith

lemma two_powi_split: "(2::real) powi (a + b) = 2 powi a * 2 powi b"
  by (rule power_int_add) simp

lemma binade_normal:
  assumes "2 powi (- 1022) \<le> \<bar>x\<bar>"
  shows "binade x = \<lfloor>log 2 \<bar>x\<bar>\<rfloor>"
proof -
  have "0 < (2::real) powi (- 1022)" by (rule zero_less_power_int) simp
  then have "0 < \<bar>x\<bar>" using assms by linarith
  then have nz: "x \<noteq> 0" by simp
  have "(2::real) powi (- 1022) < 2 powi (\<lfloor>log 2 \<bar>x\<bar>\<rfloor> + 1)"
    using assms log2_bounds(2) [OF nz] by (rule le_less_trans)
  then have "- 1022 < \<lfloor>log 2 \<bar>x\<bar>\<rfloor> + 1" by (rule two_powi_less_cancel)
  then show ?thesis by (simp add: binade_def)
qed

lemma binade_eqI:
  assumes "2 powi e \<le> \<bar>x\<bar>" "\<bar>x\<bar> < 2 powi (e + 1)" "- 1022 \<le> e"
  shows "binade x = e"
  using log2_eqI [OF assms(1,2)] assms(3) by (simp add: binade_def)

lemma binade_upper:
  assumes "x \<noteq> 0"
  shows "\<bar>x\<bar> < 2 powi (binade x + 1)"
proof -
  have "\<lfloor>log 2 \<bar>x\<bar>\<rfloor> + 1 \<le> binade x + 1" by (simp add: binade_def)
  then have "(2::real) powi (\<lfloor>log 2 \<bar>x\<bar>\<rfloor> + 1) \<le> 2 powi (binade x + 1)"
    by (rule power_int_increasing) simp
  with log2_bounds(2) [OF assms] show ?thesis by (rule less_le_trans)
qed

lemma binade_lower:
  assumes "2 powi (- 1022) \<le> \<bar>x\<bar>"
  shows "2 powi binade x \<le> \<bar>x\<bar>"
proof -
  have "0 < (2::real) powi (- 1022)" by (rule zero_less_power_int) simp
  then have "0 < \<bar>x\<bar>" using assms by linarith
  then have nz: "x \<noteq> 0" by simp
  show ?thesis
    using log2_bounds(1) [OF nz] by (simp add: binade_normal [OF assms])
qed

lemma binade_mono:
  assumes "0 < x" "x \<le> y"
  shows "binade x \<le> binade y"
proof -
  have "log 2 \<bar>x\<bar> \<le> log 2 \<bar>y\<bar>"
    using assms by simp
  then have "\<lfloor>log 2 \<bar>x\<bar>\<rfloor> \<le> \<lfloor>log 2 \<bar>y\<bar>\<rfloor>" by (rule floor_mono)
  then show ?thesis by (simp add: binade_def)
qed

lemma ulp_scale: "2 powi (binade x + k) = ulp x * 2 powi (52 + k)"
proof -
  have "binade x + k = (binade x - 52) + (52 + k)" by simp
  then show ?thesis
    unfolding ulp_def by (simp only: two_powi_split)
qed

lemma toDouble_upper:
  assumes "0 < x"
  shows "toDouble x \<le> 2 powi (binade x + 1)"
proof -
  have "x < 2 powi (binade x + 1)"
    using binade_upper [of x] assms by simp
  then have "x < ulp x * 2 powi 53"
    using ulp_scale [of x 1] by simp
  then have "x / ulp x \<le> 2 powi 53"
    by (simp add: pos_divide_le_eq mult.commute)
  then have "x / ulp x \<le> real_of_int (2 ^ 53)" by simp
  then have "roundEven (x / ulp x) \<le> roundEven (real_of_int (2 ^ 53))"
    by (rule roundEven_mono)
  then have "roundEven (x / ulp x) \<le> 2 ^ 53"
    by (simp only: roundEven_of_int)
  then have "real_of_int (roundEven (x / ulp x)) \<le> real_of_int (2 ^ 53)"
    by (simp only: of_int_le_iff)
  then have "real_of_int (roundEven (x / ulp x)) * ulp x \<le> real_of_int (2 ^ 53) * ulp x"
    by (rule mult_right_mono) simp
  also have "\<dots> = 2 powi (binade x + 1)"
    using ulp_scale [of x 1] by simp
  finally show ?thesis using assms by (simp add: toDouble_def)
qed

lemma toDouble_lower:
  assumes "2 powi (- 1022) \<le> x"
  shows "2 powi binade x \<le> toDouble x"
proof -
  have "0 < (2::real) powi (- 1022)" by (rule zero_less_power_int) simp
  then have pos: "0 < x" using assms by linarith
  have "2 powi binade x \<le> x"
    using binade_lower [of x] assms pos by simp
  then have "ulp x * 2 powi 52 \<le> x"
    using ulp_scale [of x 0] by simp
  then have "2 powi 52 \<le> x / ulp x"
    by (simp add: pos_le_divide_eq mult.commute)
  then have "real_of_int (2 ^ 52) \<le> x / ulp x" by simp
  then have "roundEven (real_of_int (2 ^ 52)) \<le> roundEven (x / ulp x)"
    by (rule roundEven_mono)
  then have "2 ^ 52 \<le> roundEven (x / ulp x)"
    by (simp only: roundEven_of_int)
  then have "real_of_int (2 ^ 52) \<le> real_of_int (roundEven (x / ulp x))"
    by (simp only: of_int_le_iff)
  then have a: "real_of_int (2 ^ 52) * ulp x \<le> real_of_int (roundEven (x / ulp x)) * ulp x"
    by (rule mult_right_mono) simp
  have b: "real_of_int (2 ^ 52) * ulp x = 2 powi binade x"
    using ulp_scale [of x 0] by simp
  have c: "toDouble x = real_of_int (roundEven (x / ulp x)) * ulp x"
    using pos by (simp add: toDouble_def)
  show ?thesis using a b c by linarith
qed

lemma toDouble_mono_pos:
  assumes "0 < x" "x \<le> y"
  shows "toDouble x \<le> toDouble y"
proof (cases "binade x = binade y")
  case True
  then have u: "ulp x = ulp y" by (simp add: ulp_def)
  have "x / ulp y \<le> y / ulp y"
    using assms(2) by (rule divide_right_mono) simp
  then have "roundEven (x / ulp y) \<le> roundEven (y / ulp y)" by (rule roundEven_mono)
  then have "real_of_int (roundEven (x / ulp y)) * ulp y \<le> real_of_int (roundEven (y / ulp y)) * ulp y"
    by (intro mult_right_mono) simp_all
  then show ?thesis using assms u by (simp add: toDouble_def)
next
  case False
  then have lt: "binade x < binade y"
    using binade_mono [OF assms] by simp
  have "- 1022 \<le> binade x" by (simp add: binade_def)
  then have "binade y = \<lfloor>log 2 \<bar>y\<bar>\<rfloor>"
    using lt by (simp add: binade_def max_def split: if_splits)
  moreover have "y \<noteq> 0" using assms by simp
  ultimately have "2 powi binade y \<le> \<bar>y\<bar>"
    using log2_bounds(1) [of y] by simp
  moreover have "(2::real) powi (- 1022) \<le> 2 powi binade y"
    by (rule power_int_increasing) (simp_all add: binade_def)
  ultimately have "2 powi (- 1022) \<le> y" using assms by simp
  then have low: "2 powi binade y \<le> toDouble y" by (rule toDouble_lower)
  have "binade x + 1 \<le> binade y" using lt by simp
  then have "(2::real) powi (binade x + 1) \<le> 2 powi binade y"
    by (rule power_int_increasing) simp
  with toDouble_upper [OF assms(1)] low show ?thesis by linarith
qed

lemma toDouble_mono:
  assumes "x \<le> y"
  shows "toDouble x \<le> toDouble y"
proof -
  consider "0 < x" | "x \<le> 0" "0 \<le> y" | "y < 0" by linarith
  then show ?thesis
  proof cases
    case 1
    then show ?thesis using assms by (rule toDouble_mono_pos)
  next
    case 2
    then show ?thesis
      using toDouble_nonpos [of x] toDouble_nonneg [of y] by linarith
  next
    case 3
    then have "0 < - y" "- y \<le> - x" using assms by simp_all
    then have "toDouble (- y) \<le> toDouble (- x)" by (rule toDouble_mono_pos)
    then show ?thesis by (simp add: toDouble_minus)
  qed
qed

lemma toDouble_eval:
  assumes "2 powi e \<le> \<bar>x\<bar>" "\<bar>x\<bar> < 2 powi (e + 1)" "- 1022 \<le> e"
    and "\<bar>x / 2 powi (e - 52) - of_int k\<bar> < 1 / 2"
  shows "toDouble x = of_int k * 2 powi (e - 52)"
proof -
  have "0 < (2::real) powi e" by (rule zero_less_power_int) simp
  then have "0 < \<bar>x\<bar>" using assms(1) by linarith
  then have nz: "x \<noteq> 0" by simp
  have u: "ulp x = 2 powi (e - 52)"
    by (simp add: ulp_def binade_eqI [OF assms(1-3)])
  have "roundEven (x / 2 powi (e - 52)) = k"
    using assms(4) by (intro roundEven_eqI) simp
  then show ?thesis using nz by (simp add: toDouble_def u)
qed

lemma toDouble_exact:
  assumes "2 powi e \<le> \<bar>x\<bar>" "\<bar>x\<bar> < 2 powi (e + 1)" "- 1022 \<le> e"
    and "x = of_int k * 2 powi (e - 52)"
  shows "toDouble x = x"
proof -
  have "x / 2 powi (e - 52) = of_int k"
    using assms(4) by simp
  then have "\<bar>x / 2 powi (e - 52) - of_int k\<bar> < 1 / 2" by simp
  then have "toDouble x = of_int k * 2 powi (e - 52)"
    by (rule toDouble_eval [OF assms(1-3)])
  then show ?thesis using assms(4) by simp
qed


section \<open>The voltage tiers in doubles\<close>



















section \<open>The emitted wattage in doubles\<close>

lemma toDouble_one: "toDouble 1 = 1"
  by (rule toDouble_exact [where e = 0 and k = "2 ^ 52"]) simp_all

lemma toDouble_small: "toDouble (1 / 2 ^ 22) = 1 / 2 ^ 22"
  by (rule toDouble_exact [where e = "- 22" and k = "2 ^ 52"]) simp_all

lemma deltaTimeHours64_positive: "0 < deltaTimeHours64 p e \<longleftrightarrow> lastTime p < now e"
proof
  assume lt: "lastTime p < now e"
  then have "1 \<le> real_of_int (now e - lastTime p)" by simp
  then have "toDouble 1 \<le> toDouble (real_of_int (now e - lastTime p))"
    by (rule toDouble_mono)
  then have "1 \<le> toDouble (real_of_int (now e - lastTime p))"
    by (simp only: toDouble_one)
  then have "1 / 2 ^ 22 \<le> toDouble (real_of_int (now e - lastTime p)) / (1000 * 60 * 60)"
    by simp
  then have "toDouble (1 / 2 ^ 22)
      \<le> toDouble (toDouble (real_of_int (now e - lastTime p)) / (1000 * 60 * 60))"
    by (rule toDouble_mono)
  then have "1 / 2 ^ 22 \<le> deltaTimeHours64 p e"
    by (simp only: toDouble_small deltaTimeHours64_def)
  then show "0 < deltaTimeHours64 p e" by simp
next
  assume pos: "0 < deltaTimeHours64 p e"
  show "lastTime p < now e"
  proof (rule ccontr)
    assume "\<not> lastTime p < now e"
    then have "real_of_int (now e - lastTime p) \<le> 0" by simp
    then have "toDouble (real_of_int (now e - lastTime p)) \<le> 0" by (rule toDouble_nonpos)
    then have "toDouble (real_of_int (now e - lastTime p)) / (1000 * 60 * 60) \<le> 0"
      by simp
    then have "deltaTimeHours64 p e \<le> 0"
      unfolding deltaTimeHours64_def by (rule toDouble_nonpos)
    with pos show False by simp
  qed
qed




lemma emittedWattage64_skip:
  assumes "\<not> isCharging e \<or> ref = None
    \<or> (\<exists>p. ref = Some p \<and> (lastLevel p = batteryLevel e \<or> now e \<le> lastTime p))"
  shows "emittedWattage64 ref e = None"
  using assms by (auto simp: emittedWattage64_def deltaTimeHours64_positive)









end
